theory Spec2Isabelle
  imports Complex_Main "HOL-Library.Multiset" "HOL-Library.Sublist"
begin

section \<open>Data model of \<^verbatim>\<open>code_assistant.py\<close>\<close>

text \<open>
  Python \<^verbatim>\<open>str\<close> values are modelled as \<^typ>\<open>string\<close>; every literal of the source is
  ASCII. A character outside ASCII is written as the bytes of its UTF-8 encoding.
  Parameters of the source called \<^verbatim>\<open>code\<close> are called \<open>snippet\<close> here, because
  \<open>code\<close> is a field of \<^verbatim>\<open>CodeSuggestion\<close>.
\<close>

abbreviation nl :: char where
  "nl \<equiv> CHR 0x0A"

record CodeSuggestion =
  code :: string
  confidence :: rat
  explanation :: string
  category :: string

record BugReport =
  line_number :: int
  severity :: string
  description :: string
  fix_suggestion :: "string option"

record AICodeAssistant =
  api_key :: string
  model :: string

subsection \<open>Exceptions\<close>

text \<open>
  Instances of Python's \<^verbatim>\<open>Exception\<close>. \<open>SyntaxError\<close> carries the two attributes the source
  reads (\<^verbatim>\<open>lineno\<close>, which may be \<^verbatim>\<open>None\<close>, and \<^verbatim>\<open>msg\<close>); every other exception is its
  class name and its arguments. A clause \<^verbatim>\<open>except SyntaxError\<close> catches the first
  constructor only, a clause \<^verbatim>\<open>except Exception\<close> catches both.
\<close>

datatype exception =
    SyntaxError "int option" string
  | OtherException string string

definition IndexError :: exception where
  "IndexError = OtherException ''IndexError'' ''list index out of range''"

definition then_do :: "exception + 'a \<Rightarrow> ('a \<Rightarrow> exception + 'b) \<Rightarrow> exception + 'b" where
  "then_do r f = (case r of Inl x \<Rightarrow> Inl x | Inr v \<Rightarrow> f v)"

subsection \<open>Syntax trees of the standard \<^verbatim>\<open>ast\<close> module\<close>

text \<open>
  A node is either an \<^verbatim>\<open>ast.ExceptHandler\<close>, with its \<^verbatim>\<open>lineno\<close>, \<^verbatim>\<open>type\<close> (\<^verbatim>\<open>None\<close> for
  a bare \<^verbatim>\<open>except:\<close>), \<^verbatim>\<open>name\<close> and \<^verbatim>\<open>body\<close>, or a node of any other class, given by the
  class name and its child nodes in field order.
\<close>

datatype ast =
    ExceptHandler int "ast option" "string option" "ast list"
  | Other string "ast list"

text \<open>\<^verbatim>\<open>ast.iter_child_nodes\<close>: the fields that are nodes, then the members of list fields.\<close>

fun iter_child_nodes :: "ast \<Rightarrow> ast list" where
  "iter_child_nodes (ExceptHandler l ty nm body) =
     (case ty of None \<Rightarrow> [] | Some t \<Rightarrow> [t]) @ body"
| "iter_child_nodes (Other c children) = children"

lemma size_iter_child_nodes: "sum_list (map size (iter_child_nodes n)) < size n"
proof (cases n)
  case (ExceptHandler l ty nm body)
  have "sum_list (map size body) \<le> size_list size body"
    by (induction body) auto
  then show ?thesis
    using ExceptHandler by (cases ty) auto
next
  case (Other c children)
  have "sum_list (map size children) \<le> size_list size children"
    by (induction children) auto
  then show ?thesis
    using Other by auto
qed

text \<open>
  \<^verbatim>\<open>ast.walk\<close>: a queue that starts with the root; each step pops the leftmost node, appends
  its children on the right and yields the node (breadth first).
\<close>

function walk_queue :: "ast list \<Rightarrow> ast list" where
  "walk_queue [] = []"
| "walk_queue (n # todo) = n # walk_queue (todo @ iter_child_nodes n)"
  by pat_completeness auto
termination
  by (relation "measure (\<lambda>q. sum_list (map size q))")
     (use size_iter_child_nodes in \<open>auto simp: less_Suc_eq_le\<close>)

definition walk :: "ast \<Rightarrow> ast list" where
  "walk tree = walk_queue [tree]"

subsection \<open>The process and the external services\<close>

text \<open>
  The keyword arguments of one call of \<^verbatim>\<open>openai.ChatCompletion.create\<close>; a message is its
  role and its content. The result of a call, as far as the source reads it: the
  \<^verbatim>\<open>message.content\<close> of each member of \<^verbatim>\<open>response.choices\<close>.
\<close>

record request =
  req_model :: string
  messages :: "(string \<times> string) list"
  temperature :: rat
  max_tokens :: int

record response =
  choices :: "string list"

text \<open>
  What a call can change outside its own frame: the module attribute \<^verbatim>\<open>openai.api_key\<close>,
  the requests sent to the service so far, and standard output. A printed line is kept as
  the fixed prefix and the exception formatted after it.
\<close>

record world =
  openai_api_key :: "string option"
  requests :: "request list"
  stdout :: "(string \<times> exception) list"

text \<open>
  The two collaborators outside the repository: \<^verbatim>\<open>ast.parse\<close>, which returns a tree or
  raises, and the remote endpoint behind \<^verbatim>\<open>openai.ChatCompletion.create\<close>, whose answer
  may depend on everything that happened before the call.
\<close>

record env =
  parse :: "string \<Rightarrow> exception + ast"
  ChatCompletion_create :: "world \<Rightarrow> request \<Rightarrow> exception + response"

type_synonym 'a outcome = "(exception + 'a) \<times> AICodeAssistant \<times> world"

definition create :: "env \<Rightarrow> request \<Rightarrow> world \<Rightarrow> (exception + response) \<times> world" where
  "create e req w = (ChatCompletion_create e w req, w\<lparr>requests := requests w @ [req]\<rparr>)"

text \<open>\<^verbatim>\<open>response.choices[0].message.content\<close>; indexing an empty list raises.\<close>

definition first_content :: "response \<Rightarrow> exception + string" where
  "first_content r = (case choices r of [] \<Rightarrow> Inl IndexError | c # _ \<Rightarrow> Inr c)"

definition print_error :: "string \<Rightarrow> exception \<Rightarrow> world \<Rightarrow> world" where
  "print_error label x w = w\<lparr>stdout := stdout w @ [(label, x)]\<rparr>"

text \<open>\<^verbatim>\<open>str\<close> of an integer, for the one number formatted into a prompt.\<close>

fun str_nat :: "nat \<Rightarrow> string" where
  "str_nat n =
     (if n < 10 then [char_of (48 + n)]
      else str_nat (n div 10) @ [char_of (48 + n mod 10)])"

declare str_nat.simps [simp del]

definition str_int :: "int \<Rightarrow> string" where
  "str_int i = (if i < 0 then CHR ''-'' # str_nat (nat (- i)) else str_nat (nat i))"

section \<open>The class \<^verbatim>\<open>AICodeAssistant\<close>\<close>

definition init :: "string \<Rightarrow> string \<Rightarrow> world \<Rightarrow> AICodeAssistant \<times> world" where
  "init key m w = (\<lparr>api_key = key, model = m\<rparr>, w\<lparr>openai_api_key := Some key\<rparr>)"

definition parse_suggestions :: "AICodeAssistant \<Rightarrow> string \<Rightarrow> CodeSuggestion list" where
  "parse_suggestions self response_text = []"

definition complete_code ::
    "env \<Rightarrow> AICodeAssistant \<Rightarrow> string \<Rightarrow> int \<Rightarrow> world \<Rightarrow> CodeSuggestion list outcome" where
  "complete_code e self code_context max_suggestions w =
     (let prompt = ''Complete the following code with best practices:'' @ [nl]
            @ ''        '' @ [nl] @ code_context @ [nl, nl]
            @ ''Provide '' @ str_int max_suggestions @ '' different completion suggestions.'';
          (r, w1) = create e
            \<lparr>req_model = model self,
             messages = [(''system'', ''You are an expert programming assistant.''),
                         (''user'', prompt)],
             temperature = 7 / 10, max_tokens = 500\<rparr> w
      in case then_do r (\<lambda>response. then_do (first_content response)
                (\<lambda>content. Inr (parse_suggestions self content))) of
           Inr suggestions \<Rightarrow> (Inr suggestions, self, w1)
         | Inl x \<Rightarrow> (Inr [], self, print_error ''Error generating code completion: '' x w1))"

subsection \<open>Static analysis\<close>

text \<open>The body of the loop of \<^verbatim>\<open>_ast_analysis\<close>, over the nodes in the order they are yielded.\<close>

fun scan :: "ast list \<Rightarrow> BugReport list" where
  "scan [] = []"
| "scan (ExceptHandler l None nm body # ns) =
     \<lparr>line_number = l, severity = ''MEDIUM'',
      description = ''Bare except clause - specify exception type'',
      fix_suggestion = Some ''except Exception as e:''\<rparr> # scan ns"
| "scan (n # ns) = scan ns"

definition ast_analysis :: "AICodeAssistant \<Rightarrow> ast \<Rightarrow> BugReport list" where
  "ast_analysis self tree = scan (walk tree)"

definition ai_bug_detection ::
    "env \<Rightarrow> AICodeAssistant \<Rightarrow> string \<Rightarrow> world \<Rightarrow> BugReport list outcome" where
  "ai_bug_detection e self snippet w =
     (let prompt = ''Analyze this code for bugs, security issues, and problems:'' @ [nl]
            @ ''        '' @ [nl] @ snippet @ [nl, nl]
            @ ''List any issues found with severity and line numbers.'';
          (r, w1) = create e
            \<lparr>req_model = model self,
             messages = [(''system'', ''You are a security and code quality expert.''),
                         (''user'', prompt)],
             temperature = 3 / 10, max_tokens = 500\<rparr> w
      in case r of
           Inr response \<Rightarrow> (Inr [], self, w1)
         | Inl x \<Rightarrow> (Inr [], self, print_error ''Error in AI bug detection: '' x w1))"

definition analyze_code ::
    "env \<Rightarrow> AICodeAssistant \<Rightarrow> string \<Rightarrow> world \<Rightarrow> BugReport list outcome" where
  "analyze_code e self snippet w =
     (case (case parse e snippet of
              Inr tree \<Rightarrow> Inr ([] @ ast_analysis self tree)
            | Inl (SyntaxError lineno msg) \<Rightarrow>
                Inr ([] @ [\<lparr>line_number =
                              (case lineno of None \<Rightarrow> 0 | Some n \<Rightarrow> if n = 0 then 0 else n),
                            severity = ''HIGH'',
                            description = ''Syntax Error: '' @ msg,
                            fix_suggestion = None\<rparr>])
            | Inl (OtherException c a) \<Rightarrow> Inl (OtherException c a)) of
        Inl x \<Rightarrow> (Inl x, self, w)
      | Inr bugs \<Rightarrow>
          (case ai_bug_detection e self snippet w of
             (Inl x, self', w') \<Rightarrow> (Inl x, self', w')
           | (Inr found, self', w') \<Rightarrow> (Inr (bugs @ found), self', w')))"

subsection \<open>Extraction of a code block\<close>

text \<open>
  \<^verbatim>\<open>_extract_code\<close> searches the pattern
  \<^verbatim>\<open>```(?:python)?\n(.*?)\n```\<close> with \<^verbatim>\<open>re.DOTALL\<close>. The matcher below follows the
  backtracking order of \<^verbatim>\<open>re\<close> for this pattern; a successful match gives the text of the
  group and the text left after the match.
\<close>

definition fence :: string where
  "fence = [CHR 0x60, CHR 0x60, CHR 0x60]"

text \<open>
  \<^verbatim>\<open>(.*?)\n```\<close>: the group is lazy, so it takes the fewest characters (any character, as
  \<^verbatim>\<open>DOTALL\<close> is set) after which a newline and a fence follow.
\<close>

fun lazy_group :: "string \<Rightarrow> (string \<times> string) option" where
  "lazy_group [] = None"
| "lazy_group (c # cs) =
     (if prefix (nl # fence) (c # cs) then Some ([], drop 4 (c # cs))
      else map_option (\<lambda>(g, rest). (c # g, rest)) (lazy_group cs))"

text \<open>\<^verbatim>\<open>\n(.*?)\n```\<close>, what follows the optional language tag.\<close>

definition after_tag :: "string \<Rightarrow> (string \<times> string) option" where
  "after_tag s = (case s of [] \<Rightarrow> None | c # cs \<Rightarrow> if c = nl then lazy_group cs else None)"

text \<open>
  The whole pattern at the start of \<open>s\<close>. The optional group is greedy: the matcher first
  takes \<^verbatim>\<open>python\<close> when it is there, and comes back to skip it when the rest fails.
\<close>

definition match_here :: "string \<Rightarrow> (string \<times> string) option" where
  "match_here s =
     (if prefix fence s then
        (let r = drop 3 s in
         case (if prefix ''python'' r then after_tag (drop 6 r) else None) of
           Some m \<Rightarrow> Some m
         | None \<Rightarrow> after_tag r)
      else None)"

text \<open>The leftmost match: the start positions are tried from left to right.\<close>

fun search :: "string \<Rightarrow> (string \<times> string) option" where
  "search [] = match_here []"
| "search (c # cs) =
     (case match_here (c # cs) of Some m \<Rightarrow> Some m | None \<Rightarrow> search cs)"

lemma lazy_group_shorter: "lazy_group s = Some (g, rest) \<Longrightarrow> length rest < length s"
proof (induction s arbitrary: g)
  case Nil
  then show ?case by simp
next
  case (Cons c cs)
  then show ?case
    by (fastforce simp: fence_def split: if_splits)
qed

lemma after_tag_shorter: "after_tag s = Some (g, rest) \<Longrightarrow> length rest < length s"
  by (auto simp: after_tag_def split: list.splits if_splits dest: lazy_group_shorter)

lemma match_here_shorter: "match_here s = Some (g, rest) \<Longrightarrow> length rest < length s"
  by (fastforce simp: match_here_def Let_def split: if_splits option.splits
        dest: after_tag_shorter)

lemma search_shorter: "search s = Some (g, rest) \<Longrightarrow> length rest < length s"
proof (induction s)
  case Nil
  then show ?case by (auto dest: match_here_shorter)
next
  case (Cons c cs)
  then show ?case
    by (fastforce split: option.splits dest: match_here_shorter)
qed

text \<open>
  \<^verbatim>\<open>re.findall\<close> with one group: the group of every match, each search resuming where the
  previous match ended (a match of this pattern is never empty).
\<close>

function findall :: "string \<Rightarrow> string list" where
  "findall s = (case search s of None \<Rightarrow> [] | Some (g, rest) \<Rightarrow> g # findall rest)"
  by pat_completeness auto
termination
  by (relation "measure length") (auto dest: search_shorter)

declare findall.simps [simp del]

definition extract_code :: "AICodeAssistant \<Rightarrow> string \<Rightarrow> string" where
  "extract_code self text =
     (let matches = findall text in case matches of m # _ \<Rightarrow> m | [] \<Rightarrow> text)"

subsection \<open>The remaining capabilities\<close>

definition refactor ::
    "env \<Rightarrow> AICodeAssistant \<Rightarrow> string \<Rightarrow> string \<Rightarrow> world \<Rightarrow> string outcome" where
  "refactor e self snippet style w =
     (let prompt = ''Refactor this code following '' @ style @ '' principles:'' @ [nl]
            @ ''        '' @ [nl] @ snippet @ [nl, nl]
            @ ''Provide the refactored version with improvements.'';
          (r, w1) = create e
            \<lparr>req_model = model self,
             messages = [(''system'', ''You are a code refactoring expert.''),
                         (''user'', prompt)],
             temperature = 5 / 10, max_tokens = 1000\<rparr> w
      in case then_do r (\<lambda>response. then_do (first_content response)
                (\<lambda>content. Inr (extract_code self content))) of
           Inr refactored_code \<Rightarrow> (Inr refactored_code, self, w1)
         | Inl x \<Rightarrow> (Inr snippet, self, print_error ''Error refactoring code: '' x w1))"

definition generate_documentation ::
    "env \<Rightarrow> AICodeAssistant \<Rightarrow> string \<Rightarrow> world \<Rightarrow> string outcome" where
  "generate_documentation e self snippet w =
     (let prompt = ''Generate comprehensive documentation for this code:'' @ [nl]
            @ ''        '' @ [nl] @ snippet @ [nl, nl]
            @ ''Include:'' @ [nl] @ ''- Overview'' @ [nl] @ ''- Parameters/Arguments'' @ [nl]
            @ ''- Return values'' @ [nl] @ ''- Usage examples'' @ [nl] @ ''- Edge cases'';
          (r, w1) = create e
            \<lparr>req_model = model self,
             messages = [(''system'', ''You are a technical documentation expert.''),
                         (''user'', prompt)],
             temperature = 6 / 10, max_tokens = 800\<rparr> w
      in case then_do r first_content of
           Inr content \<Rightarrow> (Inr content, self, w1)
         | Inl x \<Rightarrow> (Inr [], self, print_error ''Error generating documentation: '' x w1))"

definition explain_code ::
    "env \<Rightarrow> AICodeAssistant \<Rightarrow> string \<Rightarrow> world \<Rightarrow> string outcome" where
  "explain_code e self snippet w =
     (let prompt = ''Explain this code in simple terms:'' @ [nl]
            @ ''        '' @ [nl] @ snippet @ [nl, nl]
            @ ''Provide a clear, beginner-friendly explanation.'';
          (r, w1) = create e
            \<lparr>req_model = model self,
             messages = [(''system'', ''You are a patient coding instructor.''),
                         (''user'', prompt)],
             temperature = 6 / 10, max_tokens = 500\<rparr> w
      in case then_do r first_content of
           Inr content \<Rightarrow> (Inr content, self, w1)
         | Inl x \<Rightarrow> (Inr [], self, print_error ''Error explaining code: '' x w1))"

section \<open>Notions used to state the properties\<close>

subsection \<open>The handler clauses of a tree\<close>

text \<open>
  Every node of a tree, by recursion on the tree itself (the node, then the nodes of its
  children, depth first). This is the reference against which the queue of \<open>walk\<close> is
  compared.
\<close>

fun nodes :: "ast \<Rightarrow> ast list" where
  "nodes (ExceptHandler l ty nm body) =
     ExceptHandler l ty nm body
       # (case ty of None \<Rightarrow> [] | Some t \<Rightarrow> nodes t) @ concat (map nodes body)"
| "nodes (Other c children) = Other c children # concat (map nodes children)"

fun is_bare_handler :: "ast \<Rightarrow> bool" where
  "is_bare_handler (ExceptHandler l None nm body) = True"
| "is_bare_handler n = False"

fun handler_line :: "ast \<Rightarrow> int" where
  "handler_line (ExceptHandler l ty nm body) = l"
| "handler_line (Other c children) = 0"

text \<open>The source lines of the bare handler clauses of a tree, one entry per clause.\<close>

definition bare_lines :: "ast \<Rightarrow> int list" where
  "bare_lines tree = map handler_line (filter is_bare_handler (nodes tree))"

definition bare_report :: "int \<Rightarrow> BugReport" where
  "bare_report l =
     \<lparr>line_number = l, severity = ''MEDIUM'',
      description = ''Bare except clause - specify exception type'',
      fix_suggestion = Some ''except Exception as e:''\<rparr>"

subsection \<open>Concrete inputs\<close>

definition snippet_bare :: string where
  "snippet_bare = ''try:'' @ [nl] @ ''    x = 1'' @ [nl] @ ''except:'' @ [nl] @ ''    pass''"

definition snippet_typed :: string where
  "snippet_typed =
     ''try:'' @ [nl] @ ''    x = 1'' @ [nl] @ ''except ValueError:'' @ [nl] @ ''    pass''"

definition snippet_malformed :: string where
  "snippet_malformed = ''def f(:''"

definition try_body :: "ast list" where
  "try_body =
     [Other ''Assign'' [Other ''Name'' [Other ''Store'' []], Other ''Constant'' []]]"

definition tree_bare :: ast where
  "tree_bare =
     Other ''Module''
       [Other ''Try'' (try_body @ [ExceptHandler 3 None None [Other ''Pass'' []]])]"

definition tree_typed :: ast where
  "tree_typed =
     Other ''Module''
       [Other ''Try'' (try_body @
          [ExceptHandler 3 (Some (Other ''Name'' [Other ''Load'' []])) None
             [Other ''Pass'' []]])]"

text \<open>
  The lone surrogate U+D800. It has no UTF-8 encoding, which is why the parser cannot
  read it; it is written here in the three-byte form of its code point.
\<close>

definition snippet_surrogate :: string where
  "snippet_surrogate = [CHR 0xED, CHR 0xA0, CHR 0x80]"

text \<open>
  A parser that knows the three snippets above and two texts it rejects without a
  \<^verbatim>\<open>SyntaxError\<close>: a source with a null byte, for which \<^verbatim>\<open>ast.parse\<close> of older
  interpreters raises \<^verbatim>\<open>ValueError\<close> (later ones raise a \<^verbatim>\<open>SyntaxError\<close> with no line),
  and the lone surrogate, for which it raises \<^verbatim>\<open>UnicodeEncodeError\<close>.
\<close>

definition parse_example :: "string \<Rightarrow> exception + ast" where
  "parse_example s =
     (if s = snippet_bare then Inr tree_bare
      else if s = snippet_typed then Inr tree_typed
      else if s = snippet_malformed then Inl (SyntaxError (Some 1) ''invalid syntax'')
      else if CHR 0x00 \<in> set s then
        Inl (OtherException ''ValueError'' ''source code string cannot contain null bytes'')
      else if s = snippet_surrogate then
        Inl (OtherException ''UnicodeEncodeError'' ''surrogates not allowed'')
      else Inr (Other ''Module'' []))"

definition env_offline :: env where
  "env_offline =
     \<lparr>parse = parse_example,
      ChatCompletion_create =
        (\<lambda>w req. Inl (OtherException ''APIConnectionError''
                        ''Error communicating with OpenAI''))\<rparr>"

definition env_online :: env where
  "env_online =
     \<lparr>parse = parse_example,
      ChatCompletion_create = (\<lambda>w req. Inr \<lparr>choices = [''No issues found.'']\<rparr>)\<rparr>"

definition world0 :: world where
  "world0 = \<lparr>openai_api_key = None, requests = [], stdout = []\<rparr>"

definition assistant0 :: AICodeAssistant where
  "assistant0 = \<lparr>api_key = ''sk-test'', model = ''gpt-4''\<rparr>"

text \<open>
  The description as the specification prints it, with an em dash (U+2014, three bytes
  in UTF-8) where the source has a hyphen.
\<close>

definition claimed_description :: string where
  "claimed_description =
     ''Bare except clause '' @ [CHR 0xE2, CHR 0x80, CHR 0x94] @ '' specify exception type''"

definition snippet_two :: string where
  "snippet_two =
     ''try:'' @ [nl] @ ''    a()'' @ [nl] @ ''except:'' @ [nl] @ ''    try:'' @ [nl]
       @ ''        b()'' @ [nl] @ ''    except:'' @ [nl] @ ''        pass''"

definition call_stmt :: ast where
  "call_stmt = Other ''Expr'' [Other ''Call'' [Other ''Name'' [Other ''Load'' []]]]"

definition tree_two :: ast where
  "tree_two =
     Other ''Module''
       [Other ''Try''
          [call_stmt,
           ExceptHandler 3 None None
             [Other ''Try''
                [call_stmt, ExceptHandler 6 None None [Other ''Pass'' []]]]]]"

definition env_two :: env where
  "env_two =
     \<lparr>parse = (\<lambda>s. if s = snippet_two then Inr tree_two else parse_example s),
      ChatCompletion_create = ChatCompletion_create env_online\<rparr>"

text \<open>
  What \<^verbatim>\<open>ast.parse\<close> promises about line numbers: they count from 1, so none is
  negative, in a tree as in a \<^verbatim>\<open>SyntaxError\<close>.
\<close>

definition lines_nonneg :: "exception + ast \<Rightarrow> bool" where
  "lines_nonneg r =
     (case r of
        Inr tree \<Rightarrow> list_all (\<lambda>n. 0 \<le> handler_line n) (nodes tree)
      | Inl (SyntaxError lineno msg) \<Rightarrow> (case lineno of None \<Rightarrow> True | Some n \<Rightarrow> 0 \<le> n)
      | Inl (OtherException c a) \<Rightarrow> True)"

subsection \<open>Failures a capability handles\<close>

text \<open>
  The outcomes of the parser that \<open>analyze_code\<close> deals with: a tree, or a
  \<^verbatim>\<open>SyntaxError\<close>. Any other exception is outside its \<^verbatim>\<open>except\<close> clause.
\<close>

definition parser_handled :: "exception + ast \<Rightarrow> bool" where
  "parser_handled r =
     (case r of Inr tree \<Rightarrow> True
      | Inl (SyntaxError lineno msg) \<Rightarrow> True
      | Inl (OtherException c a) \<Rightarrow> False)"



subsection \<open>Fenced blocks\<close>

text \<open>The end of a block: a newline and a fence.\<close>

definition closer :: string where
  "closer = nl # fence"

text \<open>The two openings the pattern accepts: a bare fence, or a fence with \<^verbatim>\<open>python\<close>.\<close>

definition tagged :: "string \<Rightarrow> bool" where
  "tagged tag = (tag = [] \<or> tag = ''python'')"

text \<open>
  \<open>reply\<close> splits into the text before a block, the opening fence with its tag, a newline,
  the body, a newline with the closing fence, and the text after the block.
\<close>

definition fenced_as :: "string \<Rightarrow> string \<Rightarrow> string \<Rightarrow> string \<Rightarrow> string \<Rightarrow> bool" where
  "fenced_as reply pre tag body post = (reply = pre @ fence @ tag @ [nl] @ body @ closer @ post)"

definition python_block :: "string \<Rightarrow> string \<Rightarrow> string \<Rightarrow> string \<Rightarrow> string \<Rightarrow> bool" where
  "python_block reply pre tag body post = (tagged tag \<and> fenced_as reply pre tag body post)"

text \<open>
  The first block: no block opens further left, and no block that opens at the same place
  has a shorter body.
\<close>

definition first_block :: "string \<Rightarrow> string \<Rightarrow> string \<Rightarrow> bool" where
  "first_block reply pre body =
     (\<forall>pre' tag' body' post'. python_block reply pre' tag' body' post' \<longrightarrow>
        length pre \<le> length pre' \<and> (length pre' = length pre \<longrightarrow> length body \<le> length body'))"

text \<open>
  A fenced block in general, as the claim words it: the opening fence may carry any tag
  that stays on its line.
\<close>

definition fenced_block :: "string \<Rightarrow> string \<Rightarrow> string \<Rightarrow> string \<Rightarrow> string \<Rightarrow> bool" where
  "fenced_block reply pre tag body post =
     (nl \<notin> set tag \<and> CHR 0x60 \<notin> set tag \<and> fenced_as reply pre tag body post)"

definition answer_js :: string where
  "answer_js = fence @ ''js'' @ [nl] @ ''x'' @ [nl] @ fence"

definition answer_python :: string where
  "answer_python = fence @ ''python'' @ [nl] @ ''x'' @ [nl] @ fence"

section \<open>The walk visits every node once\<close>

lemma nodes_unfold: "nodes n = n # concat (map nodes (iter_child_nodes n))"
proof (cases n)
  case (ExceptHandler l ty nm body)
  then show ?thesis by (cases ty) simp_all
next
  case (Other c children)
  then show ?thesis by simp
qed

lemma mset_walk_queue: "mset (walk_queue q) = mset (concat (map nodes q))"
proof (induction q rule: walk_queue.induct)
  case 1
  show ?case by simp
next
  case (2 n todo)
  have "mset (concat (map nodes (n # todo))) =
        {#n#} + mset (concat (map nodes (iter_child_nodes n))) + mset (concat (map nodes todo))"
    by (simp add: nodes_unfold [of n])
  also have "\<dots> = {#n#} + mset (concat (map nodes (todo @ iter_child_nodes n)))"
    by simp
  finally show ?case using 2 by simp
qed

lemma mset_walk: "mset (walk tree) = mset (nodes tree)"
  unfolding walk_def mset_walk_queue by simp

lemma scan_filter: "scan ns = map (bare_report \<circ> handler_line) (filter is_bare_handler ns)"
  by (induction ns rule: scan.induct) (simp_all add: bare_report_def)

lemma mset_scan: "mset ns = mset ms \<Longrightarrow> mset (scan ns) = mset (scan ms)"
proof -
  assume "mset ns = mset ms"
  then have "mset (filter is_bare_handler ns) = mset (filter is_bare_handler ms)"
    by (metis mset_filter)
  then show ?thesis
    unfolding scan_filter by (metis mset_map)
qed

lemma lines_scan: "map line_number (scan ns) = map handler_line (filter is_bare_handler ns)"
  by (simp add: scan_filter bare_report_def)

lemma mset_lines_ast_analysis:
  "mset (map line_number (ast_analysis self tree)) = mset (bare_lines tree)"
proof -
  have "mset (filter is_bare_handler (walk tree)) = mset (filter is_bare_handler (nodes tree))"
    by (metis mset_filter mset_walk)
  then show ?thesis
    unfolding ast_analysis_def bare_lines_def lines_scan by (metis mset_map)
qed

lemma ast_analysis_reports:
  "ast_analysis self tree = map bare_report (map line_number (ast_analysis self tree))"
  by (simp add: ast_analysis_def scan_filter bare_report_def)

section \<open>Results of \<open>analyze_code\<close>\<close>

lemma ai_bug_detection_result:
  "\<exists>w'. ai_bug_detection e self snippet w = (Inr [], self, w')"
  by (simp add: ai_bug_detection_def Let_def split: prod.splits sum.splits)

lemma analyze_code_parsed:
  "parse e snippet = Inr tree \<Longrightarrow>
   fst (analyze_code e self snippet w) = Inr (ast_analysis self tree)"
  using ai_bug_detection_result [of e self snippet w]
  by (auto simp: analyze_code_def)

lemma analyze_code_syntax_error:
  "parse e snippet = Inl (SyntaxError lineno msg) \<Longrightarrow>
   fst (analyze_code e self snippet w) =
     Inr [\<lparr>line_number = (case lineno of None \<Rightarrow> 0 | Some n \<Rightarrow> n), severity = ''HIGH'',
           description = ''Syntax Error: '' @ msg, fix_suggestion = None\<rparr>]"
  using ai_bug_detection_result [of e self snippet w]
  by (auto simp: analyze_code_def split: option.splits)

lemma parse_example_bare: "parse_example snippet_bare = Inr tree_bare"
  by (simp add: parse_example_def)

lemma parse_example_typed: "parse_example snippet_typed = Inr tree_typed"
  by (simp add: parse_example_def snippet_typed_def snippet_bare_def)

lemma parse_example_malformed:
  "parse_example snippet_malformed = Inl (SyntaxError (Some 1) ''invalid syntax'')"
  by (simp add: parse_example_def snippet_malformed_def snippet_typed_def snippet_bare_def)

lemma bare_lines_tree_bare: "bare_lines tree_bare = [3]"
  by (simp add: bare_lines_def tree_bare_def try_body_def)

lemma bare_lines_tree_typed: "bare_lines tree_typed = []"
  by (simp add: bare_lines_def tree_typed_def try_body_def)

lemma mset_singleton_list: "mset xs = {#x#} \<Longrightarrow> xs = [x]"
  by (cases xs) auto

lemma single_line_reports:
  assumes "bare_lines tree = [L]"
  shows "ast_analysis self tree = [bare_report L]"
proof -
  have "mset (map line_number (ast_analysis self tree)) = {#L#}"
    using assms mset_lines_ast_analysis [of self tree] by simp
  then have "map line_number (ast_analysis self tree) = [L]"
    by (rule mset_singleton_list)
  then show ?thesis
    using ast_analysis_reports [of self tree] by simp
qed

lemma bare_lines_tree_two: "bare_lines tree_two = [3, 6]"
  by (simp add: bare_lines_def tree_two_def call_stmt_def)

lemma ast_analysis_member:
  assumes "b \<in> set (ast_analysis self tree)"
  shows "\<exists>n \<in> set (nodes tree). is_bare_handler n \<and> b = bare_report (handler_line n)"
proof -
  have "set (walk tree) = set (nodes tree)"
    using mset_walk by (rule mset_eq_setD)
  then show ?thesis
    using assms by (auto simp: ast_analysis_def scan_filter)
qed

section \<open>Frames and defaults of the capabilities\<close>

lemma ai_bug_detection_self: "fst (snd (ai_bug_detection e self snippet w)) = self"
  by (simp add: ai_bug_detection_def create_def Let_def split: sum.splits)

lemma ai_bug_detection_key:
  "openai_api_key (snd (snd (ai_bug_detection e self snippet w))) = openai_api_key w"
  by (simp add: ai_bug_detection_def create_def print_error_def Let_def split: sum.splits)


lemma ai_bug_detection_value: "fst (ai_bug_detection e self snippet w) = Inr []"
  by (simp add: ai_bug_detection_def create_def Let_def split: sum.splits)

lemma analyze_code_handled:
  assumes "parser_handled (parse e snippet)"
  shows "\<exists>bugs. analyze_code e self snippet w =
           (Inr bugs, snd (ai_bug_detection e self snippet w))"
proof -
  obtain w' where "ai_bug_detection e self snippet w = (Inr [], self, w')"
    using ai_bug_detection_result by blast
  then show ?thesis
    using assms
    by (auto simp: analyze_code_def parser_handled_def split: sum.splits exception.splits)
qed

lemma analyze_code_self: "fst (snd (analyze_code e self snippet w)) = self"
proof (cases "parser_handled (parse e snippet)")
  case True
  then show ?thesis
    using analyze_code_handled [OF True, of self w] ai_bug_detection_self [of e self snippet w]
    by auto
next
  case False
  then show ?thesis
    by (auto simp: analyze_code_def parser_handled_def split: sum.splits exception.splits)
qed

lemma analyze_code_key:
  "openai_api_key (snd (snd (analyze_code e self snippet w))) = openai_api_key w"
proof (cases "parser_handled (parse e snippet)")
  case True
  then show ?thesis
    using analyze_code_handled [OF True, of self w] ai_bug_detection_key [of e self snippet w]
    by auto
next
  case False
  then show ?thesis
    by (auto simp: analyze_code_def parser_handled_def split: sum.splits exception.splits)
qed

lemma complete_code_frame:
  "fst (snd (complete_code e self c n w)) = self \<and>
   openai_api_key (snd (snd (complete_code e self c n w))) = openai_api_key w"
  by (simp add: complete_code_def create_def print_error_def Let_def split: sum.splits)

lemma refactor_frame:
  "fst (snd (refactor e self s st w)) = self \<and>
   openai_api_key (snd (snd (refactor e self s st w))) = openai_api_key w"
  by (simp add: refactor_def create_def print_error_def Let_def split: sum.splits)

lemma generate_documentation_frame:
  "fst (snd (generate_documentation e self s w)) = self \<and>
   openai_api_key (snd (snd (generate_documentation e self s w))) = openai_api_key w"
  by (simp add: generate_documentation_def create_def print_error_def Let_def split: sum.splits)

lemma explain_code_frame:
  "fst (snd (explain_code e self s w)) = self \<and>
   openai_api_key (snd (snd (explain_code e self s w))) = openai_api_key w"
  by (simp add: explain_code_def create_def print_error_def Let_def split: sum.splits)








lemma parse_example_surrogate:
  "parse_example snippet_surrogate =
     Inl (OtherException ''UnicodeEncodeError'' ''surrogates not allowed'')"
  by (simp add: parse_example_def snippet_surrogate_def snippet_bare_def snippet_typed_def
        snippet_malformed_def)




section \<open>The matcher finds the first block\<close>

lemma lazy_group_sound: "lazy_group s = Some (g, r) \<Longrightarrow> s = g @ closer @ r"
proof (induction s arbitrary: g)
  case Nil
  then show ?case by simp
next
  case (Cons c cs)
  show ?case
  proof (cases "prefix (nl # fence) (c # cs)")
    case True
    then obtain zs where zs: "c # cs = (nl # fence) @ zs"
      by (auto simp: prefix_def)
    have "g = []" "r = drop 4 (c # cs)"
      using True Cons.prems by auto
    then show ?thesis
      using zs by (simp add: fence_def closer_def)
  next
    case False
    then obtain g0 where g0: "lazy_group cs = Some (g0, r)" "g = c # g0"
      using Cons.prems by auto
    then show ?thesis
      using Cons.IH [of g0] by simp
  qed
qed

lemma lazy_group_complete: "s = g' @ closer @ r' \<Longrightarrow> lazy_group s \<noteq> None"
proof (induction g' arbitrary: s)
  case Nil
  then show ?case by (simp add: closer_def fence_def)
next
  case (Cons c g'')
  then have "lazy_group (g'' @ closer @ r') \<noteq> None"
    by simp
  then show ?case
    using Cons.prems by auto
qed

lemma lazy_group_least:
  "lazy_group s = Some (g, r) \<Longrightarrow> s = g' @ closer @ r' \<Longrightarrow> length g \<le> length g'"
proof (induction s arbitrary: g g')
  case Nil
  then show ?case by simp
next
  case (Cons c cs)
  show ?case
  proof (cases "prefix (nl # fence) (c # cs)")
    case True
    then have "g = []"
      using Cons.prems(1) by auto
    then show ?thesis by simp
  next
    case False
    then obtain g0 where g0: "lazy_group cs = Some (g0, r)" "g = c # g0"
      using Cons.prems(1) by auto
    have "g' \<noteq> []"
      using False Cons.prems(2) by (auto simp: closer_def)
    then obtain g'' where g'': "g' = c # g''" "cs = g'' @ closer @ r'"
      using Cons.prems(2) by (cases g') auto
    show ?thesis
      using Cons.IH [OF g0(1) g''(2)] g0(2) g''(1) by simp
  qed
qed

lemma after_tag_iff: "after_tag s = Some m \<longleftrightarrow> (\<exists>cs. s = nl # cs \<and> lazy_group cs = Some m)"
  by (auto simp: after_tag_def split: list.splits)

lemma after_tag_python: "after_tag (''python'' @ s) = None"
  by (simp add: after_tag_def)

lemma match_here_sound:
  assumes "match_here s = Some (g, r)"
  shows "\<exists>tag. tagged tag \<and> s = fence @ tag @ [nl] @ g @ closer @ r"
proof -
  from assms have pf: "prefix fence s"
    by (auto simp: match_here_def split: if_splits)
  then obtain t where t: "s = fence @ t"
    by (auto simp: prefix_def)
  then have d: "drop 3 s = t"
    by (simp add: fence_def)
  show ?thesis
  proof (cases "prefix ''python'' t")
    case True
    then obtain u where u: "t = ''python'' @ u"
      by (auto simp: prefix_def)
    then have "after_tag t = None"
      using after_tag_python by simp
    moreover have "drop 6 t = u"
      using u by simp
    ultimately have "after_tag u = Some (g, r)"
      using assms pf d True by (auto simp: match_here_def Let_def split: option.splits)
    then obtain cs where "u = nl # cs" "lazy_group cs = Some (g, r)"
      by (auto simp: after_tag_iff)
    then have "s = fence @ ''python'' @ [nl] @ g @ closer @ r"
      using t u lazy_group_sound by fastforce
    then show ?thesis
      unfolding tagged_def by blast
  next
    case False
    then have "after_tag t = Some (g, r)"
      using assms pf d by (auto simp: match_here_def Let_def split: option.splits)
    then obtain cs where "t = nl # cs" "lazy_group cs = Some (g, r)"
      by (auto simp: after_tag_iff)
    then have "s = fence @ [] @ [nl] @ g @ closer @ r"
      using t lazy_group_sound by fastforce
    then show ?thesis
      unfolding tagged_def by blast
  qed
qed

lemma match_here_block:
  assumes "tagged tag"
    and "s = fence @ tag @ [nl] @ g' @ closer @ r'"
  shows "match_here s = lazy_group (g' @ closer @ r')"
proof -
  have pf: "prefix fence s"
    using assms(2) by simp
  have some: "lazy_group (g' @ closer @ r') \<noteq> None"
    using lazy_group_complete by blast
  show ?thesis
  proof (cases "tag = []")
    case True
    then have d: "drop 3 s = nl # g' @ closer @ r'"
      using assms(2) by (simp add: fence_def)
    have "\<not> prefix ''python'' (nl # g' @ closer @ r')"
      by simp
    then show ?thesis
      using pf d by (simp add: match_here_def after_tag_def)
  next
    case False
    then have tag: "tag = ''python''"
      using assms(1) by (simp add: tagged_def)
    then have d: "drop 3 s = ''python'' @ nl # g' @ closer @ r'"
      using assms(2) by (simp add: fence_def)
    have p: "prefix ''python'' (''python'' @ nl # g' @ closer @ r')"
      by simp
    have "after_tag (drop 6 (''python'' @ nl # g' @ closer @ r')) = lazy_group (g' @ closer @ r')"
      by (simp add: after_tag_def)
    then show ?thesis
      using pf d p some by (auto simp: match_here_def Let_def simp del: prefix_code split: option.splits)
  qed
qed

lemma search_None: "search s = None \<Longrightarrow> s = pre @ t \<Longrightarrow> match_here t = None"
proof (induction s arbitrary: pre)
  case Nil
  then show ?case by simp
next
  case (Cons c cs)
  show ?case
  proof (cases pre)
    case Nil
    then show ?thesis
      using Cons.prems by (auto split: option.splits)
  next
    case (Cons p ps)
    then have "cs = ps @ t" "search cs = None"
      using Cons.prems by (auto split: option.splits)
    then show ?thesis
      using Cons.IH by blast
  qed
qed

lemma search_Some:
  "search s = Some m \<Longrightarrow>
   \<exists>pre t. s = pre @ t \<and> match_here t = Some m \<and>
     (\<forall>pre' t'. s = pre' @ t' \<and> length pre' < length pre \<longrightarrow> match_here t' = None)"
proof (induction s)
  case Nil
  then have "[] = [] @ [] \<and> match_here [] = Some m"
    by simp
  then show ?case
    by (metis length_greater_0_conv less_nat_zero_code list.size(3))
next
  case (Cons c cs)
  show ?case
  proof (cases "match_here (c # cs)")
    case (Some m')
    then have "c # cs = [] @ (c # cs) \<and> match_here (c # cs) = Some m"
      using Cons.prems by simp
    then show ?thesis
      by (metis less_nat_zero_code list.size(3))
  next
    case None
    then have "search cs = Some m"
      using Cons.prems by simp
    then obtain pre t where pt: "cs = pre @ t" "match_here t = Some m"
      and least: "\<forall>pre' t'. cs = pre' @ t' \<and> length pre' < length pre \<longrightarrow> match_here t' = None"
      using Cons.IH by blast
    have "\<forall>pre' t'. c # cs = pre' @ t' \<and> length pre' < length (c # pre)
            \<longrightarrow> match_here t' = None"
    proof (intro allI impI)
      fix pre' t'
      assume a: "c # cs = pre' @ t' \<and> length pre' < length (c # pre)"
      show "match_here t' = None"
      proof (cases pre')
        case Nil
        then show ?thesis using a None by simp
      next
        case (Cons p ps)
        then have "cs = ps @ t'" "length ps < length pre"
          using a by auto
        then show ?thesis using least by blast
      qed
    qed
    moreover have "c # cs = (c # pre) @ t"
      using pt(1) by simp
    ultimately show ?thesis
      using pt(2) by blast
  qed
qed

lemma extract_code_search:
  "extract_code self reply = (case search reply of None \<Rightarrow> reply | Some (g, r) \<Rightarrow> g)"
  by (simp add: extract_code_def findall.simps [of reply] split: option.splits)

lemma block_matches:
  assumes "tagged tag"
  shows "match_here (fence @ tag @ [nl] @ body @ closer @ post) \<noteq> None"
proof -
  have "match_here (fence @ tag @ [nl] @ body @ closer @ post) =
        lazy_group (body @ closer @ post)"
    using assms by (rule match_here_block) simp
  moreover have "lazy_group (body @ closer @ post) \<noteq> None"
    by (rule lazy_group_complete) simp
  ultimately show ?thesis
    by simp
qed

lemma search_finds_first:
  assumes "python_block reply pre0 tag0 body0 post0"
  shows "\<exists>pre tag body post. python_block reply pre tag body post \<and> first_block reply pre body \<and>
           search reply = Some (body, post)"
proof -
  define t0 where "t0 = fence @ tag0 @ [nl] @ body0 @ closer @ post0"
  have reply0: "reply = pre0 @ t0"
    using assms by (simp add: python_block_def fenced_as_def t0_def)
  have "match_here t0 \<noteq> None"
    unfolding t0_def using assms by (intro block_matches) (simp add: python_block_def)
  then have "search reply \<noteq> None"
  proof (rule contrapos_nn)
    assume "search reply = None"
    then show "match_here t0 = None"
      using reply0 by (rule search_None)
  qed
  then obtain g r where gr: "search reply = Some (g, r)"
    by auto
  obtain pre t where pt: "reply = pre @ t" "match_here t = Some (g, r)"
    and least: "\<forall>pre' t'. reply = pre' @ t' \<and> length pre' < length pre \<longrightarrow> match_here t' = None"
    using search_Some [OF gr] by blast
  obtain tag where tag: "tagged tag" "t = fence @ tag @ [nl] @ g @ closer @ r"
    using match_here_sound [OF pt(2)] by blast
  have blk: "python_block reply pre tag g r"
    using pt(1) tag by (simp add: python_block_def fenced_as_def)
  have "first_block reply pre g"
    unfolding first_block_def
  proof (intro allI impI conjI)
    fix pre' tag' body' post'
    assume b: "python_block reply pre' tag' body' post'"
    define t' where "t' = fence @ tag' @ [nl] @ body' @ closer @ post'"
    have tg: "tagged tag'"
      using b by (simp add: python_block_def)
    have reply': "reply = pre' @ t'"
      using b by (simp add: python_block_def fenced_as_def t'_def)
    have m: "match_here t' = lazy_group (body' @ closer @ post')"
      unfolding t'_def using tg by (rule match_here_block) simp
    have some: "match_here t' \<noteq> None"
      unfolding t'_def using tg by (rule block_matches)
    show "length pre \<le> length pre'"
    proof (rule ccontr)
      assume "\<not> length pre \<le> length pre'"
      then have "length pre' < length pre"
        by simp
      then have "match_here t' = None"
        using least [rule_format, of pre' t'] reply' by simp
      then show False
        using some by simp
    qed
    assume len: "length pre' = length pre"
    have "pre' @ t' = pre @ t"
      using pt(1) reply' by simp
    then have "t' = t"
      using len by simp
    then have "lazy_group (body' @ closer @ post') = Some (g, r)"
      using m pt(2) by simp
    then show "length g \<le> length body'"
      by (rule lazy_group_least) simp
  qed
  then show ?thesis
    using blk gr by blast
qed

lemma first_block_unique:
  assumes "python_block reply pre tag body post" "first_block reply pre body"
    and "python_block reply pre' tag' body' post'" "first_block reply pre' body'"
  shows "body' = body"
proof -
  have "length pre \<le> length pre'" "length pre' \<le> length pre"
    using assms(2,3) assms(4,1) unfolding first_block_def by blast+
  then have lp: "length pre = length pre'"
    by simp
  have "length body \<le> length body'" "length body' \<le> length body"
    using assms(2,3) assms(4,1) lp unfolding first_block_def by metis+
  then have lb: "length body = length body'"
    by simp
  have e: "pre @ (fence @ tag @ [nl] @ body @ closer @ post) =
           pre' @ (fence @ tag' @ [nl] @ body' @ closer @ post')"
    using assms(1,3) by (simp add: python_block_def fenced_as_def)
  then have rest: "tag @ [nl] @ body @ closer @ post = tag' @ [nl] @ body' @ closer @ post'"
    using lp by simp
  have "tagged tag" "tagged tag'"
    using assms(1,3) by (simp_all add: python_block_def)
  then have "tag = tag'"
    using rest by (auto simp: tagged_def)
  then have "body @ closer @ post = body' @ closer @ post'"
    using rest by simp
  then show ?thesis
    using lb by simp
qed

lemma python_block_has_fence:
  "python_block reply pre tag body post \<Longrightarrow> CHR 0x60 \<in> set reply"
  by (simp add: python_block_def fenced_as_def fence_def)

lemma python_block_answer_python: "python_block answer_python [] ''python'' ''x'' []"
  by (simp add: python_block_def fenced_as_def tagged_def answer_python_def closer_def)

lemma first_block_answer_python: "first_block answer_python [] ''x''"
  unfolding first_block_def
proof (intro allI impI conjI)
  fix pre' tag' body' post'
  assume b: "python_block answer_python pre' tag' body' post'"
  show "length ([]::string) \<le> length pre'"
    by simp
  assume "length pre' = length ([]::string)"
  then have "pre' = []"
    by simp
  then have "body' \<noteq> []"
    using b
    by (auto simp: python_block_def fenced_as_def tagged_def answer_python_def fence_def
          closer_def)
  then show "length ''x'' \<le> length body'"
    by (cases body') simp_all
qed

section \<open>The claims\<close>

text \<open>
  C1. When the parser accepts the snippet and the tree it returns has no bare handler
  clause, \<open>analyze_code\<close> returns the empty list of reports.
\<close>

theorem C1_no_bare_handler_no_report:
  assumes "parse e snippet = Inr tree"
    and "bare_lines tree = []"
  shows "fst (analyze_code e self snippet w) = Inr []"
proof -
  have "mset (map line_number (ast_analysis self tree)) = mset (bare_lines tree)"
    by (rule mset_lines_ast_analysis)
  then have "ast_analysis self tree = []"
    using assms(2) by simp
  then show ?thesis
    using assms(1) by (simp add: analyze_code_parsed)
qed

theorem C1_witness:
  "parse env_online snippet_typed = Inr tree_typed \<and> bare_lines tree_typed = [] \<and>
   fst (analyze_code env_online assistant0 snippet_typed world0) = Inr []"
proof -
  have p: "parse env_online snippet_typed = Inr tree_typed"
    by (simp add: env_online_def parse_example_typed)
  show ?thesis
    using p bare_lines_tree_typed
      C1_no_bare_handler_no_report [OF p bare_lines_tree_typed, of assistant0 world0]
    by simp
qed

text \<open>
  C4 (as amended). When the parser rejects the snippet with a \<^verbatim>\<open>SyntaxError\<close>,
  \<open>analyze_code\<close> returns exactly one report: its severity is HIGH, its description is
  \<^verbatim>\<open>Syntax Error: \<close> followed by the parser's message, and its line is the line the
  parser reports, or 0 when the parser reports none. When the parser rejects the snippet
  with any other exception, \<open>analyze_code\<close> returns no report: the exception is raised to
  the caller, before any request is sent.
\<close>

theorem C4_syntax_error_report:
  "(parse e snippet = Inl (SyntaxError lineno msg) \<longrightarrow>
      fst (analyze_code e self snippet w) =
        Inr [\<lparr>line_number = (case lineno of None \<Rightarrow> 0 | Some n \<Rightarrow> n), severity = ''HIGH'',
              description = ''Syntax Error: '' @ msg, fix_suggestion = None\<rparr>]) \<and>
   (parse e snippet = Inl (OtherException c a) \<longrightarrow>
      analyze_code e self snippet w = (Inl (OtherException c a), self, w))"
proof (intro conjI impI)
  assume "parse e snippet = Inl (SyntaxError lineno msg)"
  then show "fst (analyze_code e self snippet w) =
        Inr [\<lparr>line_number = (case lineno of None \<Rightarrow> 0 | Some n \<Rightarrow> n), severity = ''HIGH'',
              description = ''Syntax Error: '' @ msg, fix_suggestion = None\<rparr>]"
    by (rule analyze_code_syntax_error)
next
  assume "parse e snippet = Inl (OtherException c a)"
  then show "analyze_code e self snippet w = (Inl (OtherException c a), self, w)"
    by (simp add: analyze_code_def)
qed

theorem C4_witness:
  "parse env_offline snippet_malformed = Inl (SyntaxError (Some 1) ''invalid syntax'') \<and>
   fst (analyze_code env_offline assistant0 snippet_malformed world0) =
     Inr [\<lparr>line_number = 1, severity = ''HIGH'',
           description = ''Syntax Error: invalid syntax'', fix_suggestion = None\<rparr>] \<and>
   parse env_offline snippet_surrogate =
     Inl (OtherException ''UnicodeEncodeError'' ''surrogates not allowed'') \<and>
   analyze_code env_offline assistant0 snippet_surrogate world0 =
     (Inl (OtherException ''UnicodeEncodeError'' ''surrogates not allowed''), assistant0, world0)"
proof -
  have p: "parse env_offline snippet_malformed = Inl (SyntaxError (Some 1) ''invalid syntax'')"
    by (simp add: env_offline_def parse_example_malformed)
  have q: "parse env_offline snippet_surrogate =
             Inl (OtherException ''UnicodeEncodeError'' ''surrogates not allowed'')"
    by (simp add: env_offline_def parse_example_surrogate)
  have "fst (analyze_code env_offline assistant0 snippet_malformed world0) =
     Inr [\<lparr>line_number = 1, severity = ''HIGH'',
           description = ''Syntax Error: invalid syntax'', fix_suggestion = None\<rparr>]"
    using p
      C4_syntax_error_report
        [where e = env_offline and snippet = snippet_malformed and lineno = "Some 1"
           and msg = "''invalid syntax''" and self = assistant0 and w = world0]
    by simp
  moreover have "analyze_code env_offline assistant0 snippet_surrogate world0 =
     (Inl (OtherException ''UnicodeEncodeError'' ''surrogates not allowed''), assistant0, world0)"
    using q
      C4_syntax_error_report
        [where e = env_offline and snippet = snippet_surrogate
           and c = "''UnicodeEncodeError''" and a = "''surrogates not allowed''"
           and self = assistant0 and w = world0]
    by simp
  ultimately show ?thesis
    using p q by simp
qed

text \<open>
  C4 as stated fails for a snippet that the parser rejects without a \<^verbatim>\<open>SyntaxError\<close>:
  for the lone surrogate the parser raises \<^verbatim>\<open>UnicodeEncodeError\<close>, and \<open>analyze_code\<close>
  returns no report at all, it raises.
\<close>

theorem C4_counterexample:
  "isl (parse env_offline snippet_surrogate) \<and>
   fst (analyze_code env_offline assistant0 snippet_surrogate world0) =
     Inl (OtherException ''UnicodeEncodeError'' ''surrogates not allowed'')"
  by (simp add: analyze_code_def env_offline_def parse_example_surrogate)


text \<open>
  C2 (as amended). When the parser accepts the snippet and the tree has exactly one bare
  handler clause, at line \<open>L\<close>, \<open>analyze_code\<close> returns exactly one report: line \<open>L\<close>,
  severity MEDIUM, the description \<^verbatim>\<open>Bare except clause - specify exception type\<close>
  (with a hyphen) and the suggestion \<^verbatim>\<open>except Exception as e:\<close>.
\<close>

theorem C2_one_bare_handler_one_report:
  assumes "parse e snippet = Inr tree"
    and "bare_lines tree = [L]"
  shows "fst (analyze_code e self snippet w) =
     Inr [\<lparr>line_number = L, severity = ''MEDIUM'',
           description = ''Bare except clause - specify exception type'',
           fix_suggestion = Some ''except Exception as e:''\<rparr>]"
  using assms by (simp add: analyze_code_parsed single_line_reports bare_report_def)

theorem C2_witness:
  "parse env_online snippet_bare = Inr tree_bare \<and> bare_lines tree_bare = [3] \<and>
   fst (analyze_code env_online assistant0 snippet_bare world0) =
     Inr [\<lparr>line_number = 3, severity = ''MEDIUM'',
           description = ''Bare except clause - specify exception type'',
           fix_suggestion = Some ''except Exception as e:''\<rparr>]"
proof -
  have p: "parse env_online snippet_bare = Inr tree_bare"
    by (simp add: env_online_def parse_example_bare)
  show ?thesis
    using p bare_lines_tree_bare
      C2_one_bare_handler_one_report [OF p bare_lines_tree_bare, of assistant0 world0]
    by simp
qed

text \<open>
  C2 as stated fails on the description: for the snippet with one bare handler at
  line 3 the report's description is not the text with the em dash.
\<close>

theorem C2_counterexample:
  "parse env_offline snippet_bare = Inr tree_bare \<and> bare_lines tree_bare = [3] \<and>
   fst (analyze_code env_offline assistant0 snippet_bare world0) = Inr [bare_report 3] \<and>
   description (bare_report 3) \<noteq> claimed_description"
proof -
  have p: "parse env_offline snippet_bare = Inr tree_bare"
    by (simp add: env_offline_def parse_example_bare)
  have "fst (analyze_code env_offline assistant0 snippet_bare world0) = Inr [bare_report 3]"
    using p bare_lines_tree_bare by (simp add: analyze_code_parsed single_line_reports)
  moreover have "description (bare_report 3) \<noteq> claimed_description"
    by (simp add: bare_report_def claimed_description_def)
  ultimately show ?thesis
    using p bare_lines_tree_bare by simp
qed

text \<open>
  C3. When the parser accepts the snippet and the bare handler clauses of the tree are on
  distinct lines, \<open>analyze_code\<close> returns as many reports as there are such clauses, the
  lines of the reports are exactly the lines of the clauses, each once, every report is the
  fixed MEDIUM report for its line, and scanning the nodes in any other order gives the
  same reports up to order.
\<close>

theorem C3_one_report_per_bare_handler:
  assumes "parse e snippet = Inr tree"
    and "distinct (bare_lines tree)"
    and "mset order = mset (nodes tree)"
  shows "\<exists>bugs. fst (analyze_code e self snippet w) = Inr bugs \<and>
           length bugs = length (bare_lines tree) \<and>
           mset (map line_number bugs) = mset (bare_lines tree) \<and>
           distinct (map line_number bugs) \<and>
           bugs = map bare_report (map line_number bugs) \<and>
           mset (scan order) = mset bugs"
proof -
  let ?bugs = "ast_analysis self tree"
  have lines: "mset (map line_number ?bugs) = mset (bare_lines tree)"
    by (rule mset_lines_ast_analysis)
  have "length (map line_number ?bugs) = length (bare_lines tree)"
    using lines by (rule mset_eq_length)
  then have len: "length ?bugs = length (bare_lines tree)"
    by simp
  have dist: "distinct (map line_number ?bugs)"
    using mset_eq_imp_distinct_iff [OF lines] assms(2) by simp
  have "mset order = mset (walk tree)"
    using assms(3) by (simp add: mset_walk)
  then have ord: "mset (scan order) = mset ?bugs"
    unfolding ast_analysis_def by (rule mset_scan)
  show ?thesis
  proof (intro exI conjI)
    show "fst (analyze_code e self snippet w) = Inr ?bugs"
      using assms(1) by (rule analyze_code_parsed)
    show "length ?bugs = length (bare_lines tree)" by (rule len)
    show "mset (map line_number ?bugs) = mset (bare_lines tree)" by (rule lines)
    show "distinct (map line_number ?bugs)" by (rule dist)
    show "?bugs = map bare_report (map line_number ?bugs)" by (rule ast_analysis_reports)
    show "mset (scan order) = mset ?bugs" by (rule ord)
  qed
qed

theorem C3_witness:
  "parse env_two snippet_two = Inr tree_two \<and> distinct (bare_lines tree_two) \<and>
   mset (rev (nodes tree_two)) = mset (nodes tree_two) \<and>
   (\<exists>bugs. fst (analyze_code env_two assistant0 snippet_two world0) = Inr bugs \<and>
      length bugs = 2 \<and> mset (map line_number bugs) = {#3, 6#} \<and>
      mset (scan (rev (nodes tree_two))) = mset bugs)"
proof -
  have p: "parse env_two snippet_two = Inr tree_two"
    by (simp add: env_two_def)
  have d: "distinct (bare_lines tree_two)"
    by (simp add: bare_lines_tree_two)
  have m: "mset (rev (nodes tree_two)) = mset (nodes tree_two)"
    by simp
  show ?thesis
    using p d m C3_one_report_per_bare_handler [OF p d m, of assistant0 world0]
    by (auto simp: bare_lines_tree_two)
qed

text \<open>
  C10. Provided the parser's line numbers are not negative, every report returned by
  \<open>analyze_code\<close> has severity MEDIUM or HIGH, never LOW, and a line number that is not
  negative.
\<close>

theorem C10_severity_and_line:
  assumes "lines_nonneg (parse e snippet)"
    and "fst (analyze_code e self snippet w) = Inr bugs"
    and "b \<in> set bugs"
  shows "(severity b = ''MEDIUM'' \<or> severity b = ''HIGH'') \<and> severity b \<noteq> ''LOW'' \<and>
         0 \<le> line_number b"
proof (cases "parse e snippet")
  case (Inr tree)
  then have "bugs = ast_analysis self tree"
    using assms(2) by (simp add: analyze_code_parsed)
  then obtain n where n: "n \<in> set (nodes tree)" "b = bare_report (handler_line n)"
    using assms(3) ast_analysis_member by blast
  have "0 \<le> handler_line n"
    using assms(1) Inr n(1) by (simp add: lines_nonneg_def list_all_iff)
  then show ?thesis
    using n(2) by (simp add: bare_report_def)
next
  case (Inl x)
  show ?thesis
  proof (cases x)
    case (SyntaxError lineno msg)
    then show ?thesis
      using Inl assms by (auto simp: analyze_code_syntax_error lines_nonneg_def split: option.splits)
  next
    case (OtherException c a)
    then show ?thesis
      using Inl assms(2) by (simp add: analyze_code_def)
  qed
qed

theorem C10_witness:
  "lines_nonneg (parse env_online snippet_bare) \<and>
   fst (analyze_code env_online assistant0 snippet_bare world0) = Inr [bare_report 3] \<and>
   bare_report 3 \<in> set [bare_report 3] \<and>
   (severity (bare_report 3) = ''MEDIUM'' \<or> severity (bare_report 3) = ''HIGH'') \<and>
   severity (bare_report 3) \<noteq> ''LOW'' \<and> 0 \<le> line_number (bare_report 3)"
proof -
  have p: "parse env_online snippet_bare = Inr tree_bare"
    by (simp add: env_online_def parse_example_bare)
  have h1: "lines_nonneg (parse env_online snippet_bare)"
    unfolding p by (simp add: lines_nonneg_def tree_bare_def try_body_def)
  have h2: "fst (analyze_code env_online assistant0 snippet_bare world0) = Inr [bare_report 3]"
    using p bare_lines_tree_bare by (simp add: analyze_code_parsed single_line_reports)
  have h3: "bare_report 3 \<in> set [bare_report 3]"
    by simp
  show ?thesis
    using h1 h2 h3 C10_severity_and_line [OF h1 h2 h3] by simp
qed




text \<open>
  C6 (as amended). An instance holds the credential and the model identifier given at
  construction; no capability changes the instance or the process-wide setting
  \<^verbatim>\<open>openai.api_key\<close>. Construction itself writes the credential to that setting.
\<close>

theorem C6_instance_state_and_process_setting:
  "api_key (fst (init key m w)) = key \<and> model (fst (init key m w)) = m \<and>
   openai_api_key (snd (init key m w)) = Some key \<and>
   fst (snd (complete_code e self c n w)) = self \<and>
   openai_api_key (snd (snd (complete_code e self c n w))) = openai_api_key w \<and>
   fst (snd (analyze_code e self s w)) = self \<and>
   openai_api_key (snd (snd (analyze_code e self s w))) = openai_api_key w \<and>
   fst (snd (refactor e self s st w)) = self \<and>
   openai_api_key (snd (snd (refactor e self s st w))) = openai_api_key w \<and>
   fst (snd (generate_documentation e self s w)) = self \<and>
   openai_api_key (snd (snd (generate_documentation e self s w))) = openai_api_key w \<and>
   fst (snd (explain_code e self s w)) = self \<and>
   openai_api_key (snd (snd (explain_code e self s w))) = openai_api_key w"
  using complete_code_frame [of e self c n w] refactor_frame [of e self s st w]
    generate_documentation_frame [of e self s w] explain_code_frame [of e self s w]
    analyze_code_self [of e self s w] analyze_code_key [of e self s w]
  by (simp add: init_def)

text \<open>
  C6 as stated fails on the process-wide setting: constructing an instance changes
  \<^verbatim>\<open>openai.api_key\<close>, and constructing a second one overwrites it while the first
  instance still holds its own credential.
\<close>

theorem C6_counterexample:
  "openai_api_key world0 = None \<and>
   openai_api_key (snd (init ''sk-one'' ''gpt-4'' world0)) = Some ''sk-one'' \<and>
   api_key (fst (init ''sk-one'' ''gpt-4'' world0)) = ''sk-one'' \<and>
   openai_api_key (snd (init ''sk-two'' ''gpt-4'' (snd (init ''sk-one'' ''gpt-4'' world0))))
     = Some ''sk-two''"
  by (simp add: init_def world0_def)




text \<open>
  C9 (as amended). A block is an opening fence, bare or tagged \<^verbatim>\<open>python\<close>, a newline, a
  body, a newline and a closing fence. When the text holds no such block,
  \<open>_extract_code\<close> returns the text unchanged; when it holds one, \<open>_extract_code\<close> returns
  the body of the first block (leftmost opening, shortest body), and a first block exists.
\<close>

theorem C9_first_python_fence:
  "((\<forall>pre tag body post. \<not> python_block reply pre tag body post) \<longrightarrow>
      extract_code self reply = reply) \<and>
   (python_block reply pre tag body post \<and> first_block reply pre body \<longrightarrow>
      extract_code self reply = body) \<and>
   (python_block reply pre tag body post \<longrightarrow>
      (\<exists>pre' tag' body' post'. python_block reply pre' tag' body' post' \<and>
         first_block reply pre' body' \<and> extract_code self reply = body'))"
proof (intro conjI impI)
  assume none: "\<forall>pre tag body post. \<not> python_block reply pre tag body post"
  have "search reply = None"
  proof (rule ccontr)
    assume "search reply \<noteq> None"
    then obtain g r where gr: "search reply = Some (g, r)"
      by auto
    obtain p t where pt: "reply = p @ t" "match_here t = Some (g, r)"
      using search_Some [OF gr] by blast
    obtain tg where "tagged tg" "t = fence @ tg @ [nl] @ g @ closer @ r"
      using match_here_sound [OF pt(2)] by blast
    then have "python_block reply p tg g r"
      using pt(1) by (simp add: python_block_def fenced_as_def)
    then show False
      using none by simp
  qed
  then show "extract_code self reply = reply"
    by (simp add: extract_code_search)
next
  assume a: "python_block reply pre tag body post \<and> first_block reply pre body"
  then have blk: "python_block reply pre tag body post" and fst: "first_block reply pre body"
    by simp_all
  obtain pre' tag' body' post' where
    f: "python_block reply pre' tag' body' post'" "first_block reply pre' body'"
       "search reply = Some (body', post')"
    using search_finds_first [OF blk] by blast
  have "body' = body"
    using blk fst f(1,2) by (rule first_block_unique)
  then show "extract_code self reply = body"
    using f(3) by (simp add: extract_code_search)
next
  assume blk: "python_block reply pre tag body post"
  obtain pre' tag' body' post' where
    f: "python_block reply pre' tag' body' post'" "first_block reply pre' body'"
       "search reply = Some (body', post')"
    using search_finds_first [OF blk] by blast
  have "extract_code self reply = body'"
    using f(3) by (simp add: extract_code_search)
  then show "\<exists>pre' tag' body' post'. python_block reply pre' tag' body' post' \<and>
         first_block reply pre' body' \<and> extract_code self reply = body'"
    using f(1,2) by (intro exI conjI)
qed

theorem C9_witness:
  "python_block answer_python [] ''python'' ''x'' [] \<and> first_block answer_python [] ''x'' \<and>
   extract_code assistant0 answer_python = ''x'' \<and>
   (\<forall>pre tag body post. \<not> python_block ''No code.'' pre tag body post) \<and>
   extract_code assistant0 ''No code.'' = ''No code.''"
proof -
  have none: "\<forall>pre tag body post. \<not> python_block ''No code.'' pre tag body post"
    using python_block_has_fence [of "''No code.''"] by auto
  have "extract_code assistant0 answer_python = ''x''"
    using python_block_answer_python first_block_answer_python
      C9_first_python_fence
        [where reply = answer_python and self = assistant0 and pre = "[]"
           and tag = "''python''" and body = "''x''" and post = "[]"]
    by simp
  moreover have "extract_code assistant0 ''No code.'' = ''No code.''"
    using none
      C9_first_python_fence [where reply = "''No code.''" and self = assistant0]
    by simp
  ultimately show ?thesis
    using python_block_answer_python first_block_answer_python none by simp
qed

text \<open>
  C9 as stated fails for a fence with another tag: the reply is one block tagged
  \<^verbatim>\<open>js\<close> with body \<^verbatim>\<open>x\<close>, and \<open>_extract_code\<close> returns the whole reply.
\<close>

theorem C9_counterexample:
  "fenced_block answer_js [] ''js'' ''x'' [] \<and>
   extract_code assistant0 answer_js = answer_js \<and>
   extract_code assistant0 answer_js \<noteq> ''x''"
proof -
  have "search answer_js = None"
    by (simp add: answer_js_def fence_def match_here_def after_tag_def)
  then have "extract_code assistant0 answer_js = answer_js"
    by (simp add: extract_code_search)
  moreover have "answer_js \<noteq> ''x''"
    by (simp add: answer_js_def fence_def)
  moreover have "fenced_block answer_js [] ''js'' ''x'' []"
    by (simp add: fenced_block_def fenced_as_def answer_js_def closer_def)
  ultimately show ?thesis
    by simp
qed

end
